theory Spec2Isabelle
  imports Main "HOL-Library.Word" "HOL-Library.Multiset"
begin

unbundle bit_operations_syntax

section \<open>Turboshaft operation masks (src/compiler/turboshaft/opmasks.h)\<close>

text \<open>
  An operation mask checks the opcode of an operation together with some of its
  fields by one comparison on the first eight bytes of the operation object.
  The header computes, for a list of field descriptors, a 64-bit mask and, for a
  tuple of field values, a 64-bit value; an operation matches when its first
  eight bytes, masked, equal that value.

  The embedding follows the header function by function. Template parameter packs
  are lists, \<open>uint64_t\<close> is \<open>64 word\<close>, and the C++ fold expression
  \<open>(init | ... | pack)\<close>, a binary left fold, is \<open>foldl\<close>.
\<close>

type_synonym uint64 = "64 word"

text \<open>
  \<open>Opcode\<close> is declared in operations.h; this header asserts that it is one byte
  wide and sits at offset 0 of every operation (and that the base \<open>Operation\<close> has
  four bytes), and converts it with \<open>static_cast<uint64_t>\<close>. The operation type
  \<open>Op\<close> of a \<open>MaskBuilder\<close> is used through its opcode constant
  \<open>operation_to_opcode_map<Op>::value\<close> only, which the functions below take as
  the argument \<open>op\<close>.
\<close>

type_synonym Opcode = "8 word"

text \<open>
  Modelled from the spec: \<open>kBitsPerByte\<close> is declared outside this header
  (the spec's masks are runs of \<open>8 * size\<close> bits, so the constant is 8).
\<close>

definition kBitsPerByte :: nat where
  "kBitsPerByte = 8"

subsection \<open>Field descriptors\<close>

text \<open>
  \<open>OpMaskField<T, Offset>\<close> records the field type \<open>T\<close>, \<open>offset = Offset\<close> and
  \<open>size = sizeof(T)\<close>. Of \<open>T\<close> the header uses two things only: its size, and
  what \<open>static_cast<uint64_t>\<close> does to a value of it. A value of \<open>T\<close> is modelled
  by the integer it denotes, and \<open>T\<close> by its size and its signedness
  (the header's own example declares \<open>enum Type : int8_t\<close>).

  \<open>UnwrapRepresentation\<close> and the \<open>FIELD\<close> macro pick the field type: for a
  representation wrapper its inner \<open>Enum\<close>, otherwise the declared type. A
  descriptor here stands for the field after that step, and a wrapper value for the
  integer of its enum.
\<close>

record OpMaskField =
  offset :: nat
  size_f :: nat
  is_signed :: bool

text \<open>The values of the field type: what an argument of type \<open>F::type\<close> can be.\<close>

definition value_of_type :: "OpMaskField \<Rightarrow> int \<Rightarrow> bool" where
  "value_of_type F v =
     (if is_signed F
      then - (2 ^ (8 * size_f F - 1)) \<le> v \<and> v < 2 ^ (8 * size_f F - 1)
      else 0 \<le> v \<and> v < 2 ^ (8 * size_f F))"

text \<open>
  The unsigned range of the field's byte width, \<open>[0, 2^(8 * size) - 1]\<close>: the values
  that fit the field's bytes without sign extension.
\<close>

definition fits_width :: "OpMaskField \<Rightarrow> int \<Rightarrow> bool" where
  "fits_width F v = (0 \<le> v \<and> v < 2 ^ (8 * size_f F))"

text \<open>
  The static assertions: \<open>offset + size <= sizeof(uint64_t)\<close> in \<open>OpMaskField\<close>
  and in \<open>BuildFieldMask\<close>, and \<open>F::size < sizeof(uint64_t)\<close> in
  \<open>BuildFieldMask\<close>. A descriptor that fails them does not compile, so the
  theorems below assume them. (\<open>sizeof\<close> is never 0 in C++.)
\<close>

definition static_asserts :: "OpMaskField \<Rightarrow> bool" where
  "static_asserts F = (size_f F < 8 \<and> offset F + size_f F \<le> 8)"

subsection \<open>Encoding\<close>

text \<open>\<open>encode_for_mask(value) = static_cast<uint64_t>(value)\<close>: the value modulo \<open>2^64\<close>.\<close>

definition encode_for_mask :: "int \<Rightarrow> uint64" where
  "encode_for_mask v = word_of_int v"

definition BuildBaseMask :: uint64 where
  "BuildBaseMask = 0xFF"

definition EncodeBaseValue :: "Opcode \<Rightarrow> uint64" where
  "EncodeBaseValue opcode = ucast opcode"

text \<open>
  \<open>ones = uint64_t(-1) >> ((sizeof(uint64_t) - F::size) * kBitsPerByte)\<close>, then
  \<open>ones << (F::offset * kBitsPerByte)\<close>. The subtraction is on \<open>size_t\<close>; under the
  static assertion \<open>size < 8\<close> it does not wrap, and both shifts are by less than 64.
\<close>

definition BuildFieldMask :: "OpMaskField \<Rightarrow> uint64" where
  "BuildFieldMask F =
     (let ones = drop_bit ((8 - size_f F) * kBitsPerByte) (- 1 :: uint64)
      in push_bit (offset F * kBitsPerByte) ones)"

text \<open>
  \<open>EncodeFieldValue(value) = encode_for_mask(value) << (F::offset * kBitsPerByte)\<close>:
  a shift and nothing else; bits pushed beyond bit 63 are lost.
\<close>

definition EncodeFieldValue :: "OpMaskField \<Rightarrow> int \<Rightarrow> uint64" where
  "EncodeFieldValue F v = push_bit (offset F * kBitsPerByte) (encode_for_mask v)"

definition BuildMask :: "OpMaskField list \<Rightarrow> uint64" where
  "BuildMask Fields =
     (let base_mask = BuildBaseMask
      in foldl (\<lambda>acc F. acc OR BuildFieldMask F) base_mask Fields)"

text \<open>
  \<open>EncodeValue(typename Fields::type... args)\<close> takes one argument per field; the
  pack expansion pairs the fields with the arguments in declaration order.
\<close>

definition EncodeValue :: "Opcode \<Rightarrow> OpMaskField list \<Rightarrow> int list \<Rightarrow> uint64" where
  "EncodeValue op Fields args =
     (let base_mask = EncodeBaseValue op
      in foldl (\<lambda>acc (F, a). acc OR EncodeFieldValue F a) base_mask (zip Fields args))"

subsection \<open>Masks and the check\<close>

text \<open>
  Modelled from the spec: \<open>OpMaskT<Op, Mask, Value>\<close> is declared in operations.h.
  The spec's Shape Mask is the triple (selector mask, expected pattern, owning
  operation type); the owning type is identified by its opcode.
\<close>

record OpMaskT =
  operation :: Opcode
  mask_of :: uint64
  value_of :: uint64

text \<open>\<open>For<Args...> = OpMaskT<Op, BuildMask(), EncodeValue(Args...)>\<close>.\<close>

definition For :: "Opcode \<Rightarrow> OpMaskField list \<Rightarrow> int list \<Rightarrow> OpMaskT" where
  "For op Fields Args =
     \<lparr>operation = op, mask_of = BuildMask Fields, value_of = EncodeValue op Fields Args\<rparr>"

text \<open>
  Modelled from the spec: the operation types are declared in operations.h. An
  operation record is a fixed-layout block of bytes; byte 0 is the opcode, and the
  first eight bytes are readable, so a record has at least eight bytes.
\<close>

type_synonym record_bytes = "8 word list"

text \<open>
  Modelled from the spec: the load of the leading word is in operations.h. The spec
  reads the record's leading 8 bytes as one unsigned 64-bit word, and its scenario
  (bytes \<open>[2, 0, 1, \<dots>]\<close> give the masked word \<open>0x00010002\<close>) fixes byte \<open>i\<close> at bits
  \<open>8 * i\<close> to \<open>8 * i + 7\<close>.
\<close>

fun le_word :: "8 word list \<Rightarrow> uint64" where
  "le_word [] = 0"
| "le_word (b # bs) = ucast b OR push_bit 8 (le_word bs)"

definition leading_word :: "record_bytes \<Rightarrow> uint64" where
  "leading_word record = le_word (take 8 record)"

text \<open>
  Modelled from the spec: \<open>Test\<close> (\<open>Operation::Is\<close> of operations.h) loads the
  record's leading 8 bytes as an unsigned 64-bit word \<open>w\<close> and returns
  \<open>(w & selector_mask) == pattern\<close>.
\<close>

definition Test :: "OpMaskT \<Rightarrow> record_bytes \<Rightarrow> bool" where
  "Test M record = (let w = leading_word record in w AND mask_of M = value_of M)"

text \<open>
  Modelled from the spec: \<open>TryCast\<close> (\<open>Operation::TryCast\<close> of operations.h)
  performs \<open>Test\<close>; on success it returns a reference to the record, seen as the
  owning operation type, on failure an empty result.
\<close>

definition TryCast :: "OpMaskT \<Rightarrow> record_bytes \<Rightarrow> record_bytes option" where
  "TryCast M record = (if Test M record then Some record else None)"

text \<open>
  Modelled from the spec: what a record holds (the record types are declared in
  operations.h). Its opcode is byte 0; a field is the \<open>size\<close> bytes at \<open>offset\<close>,
  and its value the number these bytes denote, read unsigned, or read in two's
  complement when the field type is signed.
\<close>

definition opcode_of :: "record_bytes \<Rightarrow> Opcode" where
  "opcode_of record = record ! 0"

definition field_bytes :: "OpMaskField \<Rightarrow> record_bytes \<Rightarrow> 8 word list" where
  "field_bytes F record = take (size_f F) (drop (offset F) record)"

definition field_unsigned :: "OpMaskField \<Rightarrow> record_bytes \<Rightarrow> int" where
  "field_unsigned F record = uint (le_word (field_bytes F record))"

definition field_value :: "OpMaskField \<Rightarrow> record_bytes \<Rightarrow> int" where
  "field_value F record =
     (let u = field_unsigned F record
      in if is_signed F \<and> 2 ^ (8 * size_f F - 1) \<le> u then u - 2 ^ (8 * size_f F) else u)"

subsection \<open>Layout conditions and the spec's formulas\<close>

text \<open>
  Two fields occupy disjoint byte ranges; the fields of a list do so pairwise (by
  position, so a field listed twice overlaps itself); a field lies after the opcode
  byte. The header checks none of these.
\<close>

definition disjoint_ranges :: "OpMaskField \<Rightarrow> OpMaskField \<Rightarrow> bool" where
  "disjoint_ranges F G =
     (offset F + size_f F \<le> offset G \<or> offset G + size_f G \<le> offset F)"

fun disjoint_fields :: "OpMaskField list \<Rightarrow> bool" where
  "disjoint_fields [] = True"
| "disjoint_fields (F # Fs) = (list_all (disjoint_ranges F) Fs \<and> disjoint_fields Fs)"

definition after_opcode :: "OpMaskField \<Rightarrow> bool" where
  "after_opcode F = (1 \<le> offset F)"

text \<open>
  The bytes of a field read back out of a 64-bit word: shift right by \<open>8 * offset\<close>
  bits and keep \<open>8 * size\<close> bits.
\<close>

definition field_of_word :: "OpMaskField \<Rightarrow> uint64 \<Rightarrow> uint64" where
  "field_of_word F w = take_bit (8 * size_f F) (drop_bit (8 * offset F) w)"

text \<open>
  The spec's pattern encoder, in its words: the opcode constant OR-combined with each
  value, converted to its integer form, masked to its declared width, then shifted to
  its offset.
\<close>

definition spec_EncodePattern :: "Opcode \<Rightarrow> OpMaskField list \<Rightarrow> int list \<Rightarrow> uint64" where
  "spec_EncodePattern op Fields args =
     foldl (\<lambda>acc (F, a). acc OR push_bit (8 * offset F) (take_bit (8 * size_f F) (word_of_int a)))
       (ucast op) (zip Fields args)"

text \<open>
  The spec's selector mask, in its words: the OR of \<open>0xFF\<close> and, for each field, a
  run of \<open>8 * size\<close> one-bits shifted left by \<open>8 * offset\<close> bits.
\<close>

definition spec_BuildSelectorMask :: "OpMaskField list \<Rightarrow> uint64" where
  "spec_BuildSelectorMask Fields =
     foldr (\<lambda>F acc. push_bit (8 * offset F) (mask (8 * size_f F)) OR acc) Fields 0xFF"

text \<open>
  The spec's concrete scenario: opcode constant 2, a \<open>kind\<close> field at offset 1 and a
  \<open>rep\<close> field at offset 2, one unsigned byte each. The third descriptor is a signed
  one-byte field at offset 1, as in the header's \<open>enum Type : int8_t\<close>.
\<close>

definition scenario_kind :: OpMaskField where
  "scenario_kind = \<lparr>offset = 1, size_f = 1, is_signed = False\<rparr>"

definition scenario_rep :: OpMaskField where
  "scenario_rep = \<lparr>offset = 2, size_f = 1, is_signed = False\<rparr>"

definition signed_byte_field :: OpMaskField where
  "signed_byte_field = \<lparr>offset = 1, size_f = 1, is_signed = True\<rparr>"

section \<open>Bits of the mask and of the pattern\<close>

text \<open>A fold of \<open>OR\<close> sets exactly the bits its operands set.\<close>

lemma bit_foldl_OR:
  "bit (foldl (\<lambda>acc x. acc OR f x) (a :: uint64) xs) n \<longleftrightarrow> bit a n \<or> (\<exists>x\<in>set xs. bit (f x) n)"
  by (induction xs arbitrary: a) (auto simp: bit_or_iff)

lemma bit_foldl_OR_prod:
  "bit (foldl (\<lambda>acc (x, y). acc OR f x y) (a :: uint64) xs) n \<longleftrightarrow>
     bit a n \<or> (\<exists>(x, y)\<in>set xs. bit (f x y) n)"
  by (induction xs arbitrary: a) (auto simp: bit_or_iff)

lemma bit_foldr_OR:
  "bit (foldr (\<lambda>x acc. f x OR acc) xs (a :: uint64)) n \<longleftrightarrow> bit a n \<or> (\<exists>x\<in>set xs. bit (f x) n)"
  by (induction xs) (auto simp: bit_or_iff)

lemma ex_zip_nth:
  "(\<exists>(x, y)\<in>set (zip xs ys). P x y) \<longleftrightarrow> (\<exists>i. i < length xs \<and> i < length ys \<and> P (xs ! i) (ys ! i))"
proof
  assume "\<exists>(x, y)\<in>set (zip xs ys). P x y"
  then show "\<exists>i. i < length xs \<and> i < length ys \<and> P (xs ! i) (ys ! i)"
    by (auto simp: in_set_zip)
next
  assume "\<exists>i. i < length xs \<and> i < length ys \<and> P (xs ! i) (ys ! i)"
  then obtain i where i: "i < length xs" "i < length ys" "P (xs ! i) (ys ! i)" by blast
  then have "(xs ! i, ys ! i) \<in> set (zip xs ys)"
    by (auto simp: in_set_zip)
  with i show "\<exists>(x, y)\<in>set (zip xs ys). P x y" by blast
qed

text \<open>Under \<open>size \<le> 8\<close> the shifted \<open>-1\<close> is a run of \<open>8 * size\<close> ones.\<close>

lemma ones_eq_mask:
  "s \<le> 8 \<Longrightarrow> drop_bit ((8 - s) * 8) (- 1 :: uint64) = mask (8 * s)"
  by (rule bit_word_eqI) (auto simp: bit_drop_bit_eq bit_mask_iff)

lemma bit_0xFF: "bit (0xFF :: uint64) n \<longleftrightarrow> n < 8"
proof -
  have "bit (mask 8 :: uint64) n \<longleftrightarrow> n < 8" by (auto simp: bit_mask_iff)
  moreover have "(mask 8 :: uint64) = 0xFF" by (simp add: mask_eq_exp_minus_1)
  ultimately show ?thesis by simp
qed

lemma bit_BuildFieldMask:
  "size_f F \<le> 8 \<Longrightarrow> bit (BuildFieldMask F) n \<longleftrightarrow>
     n < 64 \<and> 8 * offset F \<le> n \<and> n < 8 * offset F + 8 * size_f F"
  unfolding BuildFieldMask_def kBitsPerByte_def Let_def
  by (simp only: ones_eq_mask) (auto simp: bit_push_bit_iff bit_mask_iff mult.commute)

lemma bit_EncodeFieldValue:
  "bit (EncodeFieldValue F v) n \<longleftrightarrow> n < 64 \<and> 8 * offset F \<le> n \<and> bit v (n - 8 * offset F)"
  by (auto simp: EncodeFieldValue_def encode_for_mask_def kBitsPerByte_def bit_push_bit_iff bit_word_of_int_iff mult.commute)

text \<open>Bit \<open>n\<close> of the mask: the opcode byte or the window of some field.\<close>

lemma bit_BuildMask:
  "list_all static_asserts Fs \<Longrightarrow> bit (BuildMask Fs) n \<longleftrightarrow>
     n < 64 \<and> (n < 8 \<or> (\<exists>F\<in>set Fs. 8 * offset F \<le> n \<and> n < 8 * offset F + 8 * size_f F))"
proof -
  assume a: "list_all static_asserts Fs"
  have "\<And>F. F \<in> set Fs \<Longrightarrow> size_f F \<le> 8"
    using a by (auto simp: list_all_iff static_asserts_def)
  then show ?thesis
    unfolding BuildMask_def Let_def BuildBaseMask_def bit_foldl_OR bit_0xFF
    by (auto simp: bit_BuildFieldMask)
qed

text \<open>Bit \<open>n\<close> of the pattern: a bit of the opcode or a bit of some shifted value.\<close>

lemma bit_EncodeValue:
  "bit (EncodeValue op Fs vs) n \<longleftrightarrow>
     n < 64 \<and> ((n < 8 \<and> bit op n) \<or>
       (\<exists>i. i < length Fs \<and> i < length vs \<and> 8 * offset (Fs ! i) \<le> n \<and> bit (vs ! i) (n - 8 * offset (Fs ! i))))"
proof -
  have "bit (ucast op :: uint64) n \<longleftrightarrow> n < 8 \<and> bit op n"
    by (auto simp: bit_ucast_iff dest: bit_imp_le_length)
  then show ?thesis
    unfolding EncodeValue_def Let_def EncodeBaseValue_def bit_foldl_OR_prod ex_zip_nth
    by (auto simp: bit_EncodeFieldValue) 
qed

text \<open>A value in the unsigned range of the width has no bit at or above \<open>8 * size\<close>.\<close>

lemma fits_width_bit:
  "fits_width F v \<Longrightarrow> bit v k \<Longrightarrow> k < 8 * size_f F"
proof -
  assume a: "fits_width F v" and b: "bit v k"
  then have "take_bit (8 * size_f F) v = v"
    by (simp add: fits_width_def take_bit_int_eq_self)
  then have "bit (take_bit (8 * size_f F) v) k" using b by simp
  then show ?thesis by (simp add: bit_take_bit_iff)
qed

lemma uint_word_of_int_fits:
  assumes "fits_width F v" and "size_f F \<le> 8"
  shows "uint (word_of_int v :: uint64) = v"
proof -
  have "(2 :: int) ^ (8 * size_f F) \<le> 2 ^ 64"
    using assms(2) by (intro power_increasing) simp_all
  then have "0 \<le> v" "v < 2 ^ 64" using assms(1) by (simp_all add: fits_width_def)
  then have "take_bit 64 v = v" by (simp add: take_bit_int_eq_self)
  then show ?thesis by (simp add: uint_word_of_int_eq)
qed

lemma pattern_in_mask:
  assumes sa: "list_all static_asserts Fs" and fits: "list_all2 fits_width Fs vs"
    and b: "bit (EncodeValue op Fs vs) n"
  shows "bit (BuildMask Fs) n"
proof -
  from b consider "n < 8" "n < 64"
    | i where "n < 64" "i < length Fs" "i < length vs" "8 * offset (Fs ! i) \<le> n"
        "bit (vs ! i) (n - 8 * offset (Fs ! i))"
    by (auto simp: bit_EncodeValue)
  then show ?thesis
  proof cases
    case 1
    then show ?thesis by (simp add: bit_BuildMask [OF sa])
  next
    case 2
    have "fits_width (Fs ! i) (vs ! i)" using fits 2 by (simp add: list_all2_nthD)
    then have "n - 8 * offset (Fs ! i) < 8 * size_f (Fs ! i)"
      using 2(5) by (rule fits_width_bit)
    then have "n < 8 * offset (Fs ! i) + 8 * size_f (Fs ! i)" using 2(4) by simp
    moreover have "Fs ! i \<in> set Fs" using 2 by simp
    ultimately have "\<exists>F\<in>set Fs. 8 * offset F \<le> n \<and> n < 8 * offset F + 8 * size_f F"
      using 2(4) by blast
    then show ?thesis using 2(1) by (simp add: bit_BuildMask [OF sa])
  qed
qed

lemma disjoint_fields_nth:
  "disjoint_fields Fs \<Longrightarrow> i < length Fs \<Longrightarrow> j < length Fs \<Longrightarrow> i \<noteq> j \<Longrightarrow>
     disjoint_ranges (Fs ! i) (Fs ! j)"
proof (induction Fs arbitrary: i j)
  case Nil
  then show ?case by simp
next
  case (Cons F Fs)
  then show ?case
    by (cases i; cases j) (auto simp: list_all_length disjoint_ranges_def)
qed

section \<open>A word against a mask\<close>

lemma bit_field_of_word:
  "bit (field_of_word F w) k \<longleftrightarrow> k < 8 * size_f F \<and> bit w (8 * offset F + k)"
  by (simp add: field_of_word_def bit_take_bit_iff bit_drop_bit_eq)

lemma field_of_word_eq_iff:
  assumes "fits_width F v" "offset F + size_f F \<le> 8"
  shows "field_of_word F w = word_of_int v \<longleftrightarrow>
    (\<forall>k < 8 * size_f F. bit w (8 * offset F + k) = bit v k)"
proof
  assume e: "field_of_word F w = word_of_int v"
  show "\<forall>k < 8 * size_f F. bit w (8 * offset F + k) = bit v k"
  proof (intro allI impI)
    fix k assume k: "k < 8 * size_f F"
    then have "k < 64" using assms(2) by simp
    have "bit (field_of_word F w) k = bit (word_of_int v :: uint64) k" using e by simp
    then show "bit w (8 * offset F + k) = bit v k"
      using k \<open>k < 64\<close> by (simp add: bit_field_of_word bit_word_of_int_iff)
  qed
next
  assume a: "\<forall>k < 8 * size_f F. bit w (8 * offset F + k) = bit v k"
  show "field_of_word F w = word_of_int v"
  proof (rule bit_word_eqI)
    fix k assume "k < LENGTH(64)"
    then show "bit (field_of_word F w) k = bit (word_of_int v :: uint64) k"
      using a fits_width_bit [OF assms(1), of k]
      by (auto simp: bit_field_of_word bit_word_of_int_iff)
  qed
qed

lemma bit_Opcode_lt: "bit (op :: Opcode) n \<Longrightarrow> n < 8"
  using bit_imp_le_length [of op n] by simp

lemma low_byte_eq_iff:
  "take_bit 8 (w :: uint64) = ucast (op :: Opcode) \<longleftrightarrow> (\<forall>n < 8. bit w n = bit op n)"
proof
  assume e: "take_bit 8 w = ucast op"
  show "\<forall>n < 8. bit w n = bit op n"
  proof (intro allI impI)
    fix n :: nat assume n: "n < 8"
    have "bit (take_bit 8 w) n = bit (ucast op :: uint64) n" using e by simp
    then show "bit w n = bit op n" using n by (simp add: bit_take_bit_iff bit_ucast_iff)
  qed
next
  assume a: "\<forall>n < 8. bit w n = bit op n"
  show "take_bit 8 w = ucast op"
  proof (rule bit_word_eqI)
    fix n assume "n < LENGTH(64)"
    then show "bit (take_bit 8 w) n = bit (ucast op :: uint64) n"
      using a bit_Opcode_lt [of op n] by (auto simp: bit_take_bit_iff bit_ucast_iff)
  qed
qed

lemma ucast_Opcode_inj: "(ucast (a :: Opcode) :: uint64) = ucast b \<longleftrightarrow> a = b"
proof
  assume e: "(ucast a :: uint64) = ucast b"
  show "a = b"
  proof (rule bit_word_eqI)
    fix n assume "n < LENGTH(8)"
    then have n: "n < 8" by simp
    have "bit (ucast a :: uint64) n = bit (ucast b :: uint64) n" using e by simp
    then show "bit a n = bit b n" using n by (simp add: bit_ucast_iff)
  qed
qed simp

text \<open>
  A word whose low byte is the opcode and whose field windows hold the values matches,
  whatever the layout of the fields.
\<close>

lemma match_if:
  assumes sa: "list_all static_asserts Fs"
    and fits: "list_all2 fits_width Fs vs"
    and op: "take_bit 8 w = ucast op"
    and flds: "\<forall>i < length Fs. field_of_word (Fs ! i) w = word_of_int (vs ! i)"
  shows "w AND BuildMask Fs = EncodeValue op Fs vs"
proof (rule bit_word_eqI)
  fix n assume "n < LENGTH(64)"
  then have n: "n < 64" by simp
  have len: "length vs = length Fs" using fits by (simp add: list_all2_lengthD)
  have opb: "\<And>m. m < 8 \<Longrightarrow> bit w m = bit op m"
    using op by (simp add: low_byte_eq_iff)
  have fld: "\<And>i k. i < length Fs \<Longrightarrow> k < 8 * size_f (Fs ! i) \<Longrightarrow>
      bit w (8 * offset (Fs ! i) + k) = bit (vs ! i) k"
  proof -
    fix i k assume i: "i < length Fs" and k: "k < 8 * size_f (Fs ! i)"
    have f: "fits_width (Fs ! i) (vs ! i)" using fits i by (simp add: list_all2_nthD)
    have s: "offset (Fs ! i) + size_f (Fs ! i) \<le> 8"
      using sa i by (simp add: list_all_length static_asserts_def)
    have "field_of_word (Fs ! i) w = word_of_int (vs ! i)" using flds i by blast
    then show "bit w (8 * offset (Fs ! i) + k) = bit (vs ! i) k"
      using field_of_word_eq_iff [OF f s, of w] k by blast
  qed
  show "bit (w AND BuildMask Fs) n = bit (EncodeValue op Fs vs) n"
  proof
    assume "bit (w AND BuildMask Fs) n"
    then have w: "bit w n" and m: "n < 8 \<or> (\<exists>F\<in>set Fs. 8 * offset F \<le> n \<and> n < 8 * offset F + 8 * size_f F)"
      by (simp_all add: bit_and_iff bit_BuildMask [OF sa])
    from m show "bit (EncodeValue op Fs vs) n"
    proof
      assume "n < 8"
      then show ?thesis using w opb n by (simp add: bit_EncodeValue)
    next
      assume "\<exists>F\<in>set Fs. 8 * offset F \<le> n \<and> n < 8 * offset F + 8 * size_f F"
      then obtain i where i: "i < length Fs" "8 * offset (Fs ! i) \<le> n" "n < 8 * offset (Fs ! i) + 8 * size_f (Fs ! i)"
        by (auto simp: in_set_conv_nth)
      then have "bit (vs ! i) (n - 8 * offset (Fs ! i))"
        using fld [of i "n - 8 * offset (Fs ! i)"] w by simp
      then show ?thesis using i n len by (auto simp: bit_EncodeValue)
    qed
  next
    assume "bit (EncodeValue op Fs vs) n"
    then consider "n < 8" "bit op n"
      | i where "i < length Fs" "8 * offset (Fs ! i) \<le> n" "bit (vs ! i) (n - 8 * offset (Fs ! i))"
      by (auto simp: bit_EncodeValue)
    then show "bit (w AND BuildMask Fs) n"
    proof cases
      case 1
      then show ?thesis using opb n by (simp add: bit_and_iff bit_BuildMask [OF sa])
    next
      case 2
      have "fits_width (Fs ! i) (vs ! i)" using fits 2 by (simp add: list_all2_nthD)
      then have k: "n - 8 * offset (Fs ! i) < 8 * size_f (Fs ! i)"
        using 2 fits_width_bit by blast
      then have "bit w n" using fld [OF 2(1) k] 2 by simp
      moreover have "Fs ! i \<in> set Fs" using 2 by simp
      ultimately show ?thesis using k 2 n
        by (auto simp: bit_and_iff bit_BuildMask [OF sa])
    qed
  qed
qed

text \<open>
  The converse needs the windows to be disjoint and to leave the opcode byte alone:
  otherwise the pattern mixes several values in one window.
\<close>

lemma match_only_if:
  assumes sa: "list_all static_asserts Fs"
    and fits: "list_all2 fits_width Fs vs"
    and ao: "list_all after_opcode Fs"
    and dj: "disjoint_fields Fs"
    and eq: "w AND BuildMask Fs = EncodeValue op Fs vs"
  shows "take_bit 8 w = ucast op"
    and "\<forall>i < length Fs. field_of_word (Fs ! i) w = word_of_int (vs ! i)"
proof -
  have len: "length vs = length Fs" using fits by (simp add: list_all2_lengthD)
  have eqb: "\<And>n. (bit w n \<and> bit (BuildMask Fs) n) = bit (EncodeValue op Fs vs) n"
    using eq by (metis bit_and_iff)
  have off: "\<And>j. j < length Fs \<Longrightarrow> 8 \<le> 8 * offset (Fs ! j)"
    using ao by (simp add: list_all_length after_opcode_def)
  have win: "\<And>j n. j < length Fs \<Longrightarrow> bit (vs ! j) (n - 8 * offset (Fs ! j)) \<Longrightarrow>
      n - 8 * offset (Fs ! j) < 8 * size_f (Fs ! j)"
  proof -
    fix j n assume "j < length Fs" and b: "bit (vs ! j) (n - 8 * offset (Fs ! j))"
    then have "fits_width (Fs ! j) (vs ! j)" using fits by (simp add: list_all2_nthD)
    then show "n - 8 * offset (Fs ! j) < 8 * size_f (Fs ! j)"
      using b by (rule fits_width_bit)
  qed
  show "take_bit 8 w = ucast op"
    unfolding low_byte_eq_iff
  proof (intro allI impI)
    fix n :: nat assume n: "n < 8"
    then have "bit (BuildMask Fs) n" by (simp add: bit_BuildMask [OF sa])
    moreover have "bit (EncodeValue op Fs vs) n = bit op n"
      using n off by (fastforce simp: bit_EncodeValue)
    ultimately show "bit w n = bit op n" using eqb [of n] by simp
  qed
  show "\<forall>i < length Fs. field_of_word (Fs ! i) w = word_of_int (vs ! i)"
  proof (intro allI impI)
    fix i assume i: "i < length Fs"
    have f: "fits_width (Fs ! i) (vs ! i)" using fits i by (simp add: list_all2_nthD)
    have s: "offset (Fs ! i) + size_f (Fs ! i) \<le> 8"
      using sa i by (simp add: list_all_length static_asserts_def)
    have "\<forall>k < 8 * size_f (Fs ! i). bit w (8 * offset (Fs ! i) + k) = bit (vs ! i) k"
    proof (intro allI impI)
      fix k assume k: "k < 8 * size_f (Fs ! i)"
      let ?n = "8 * offset (Fs ! i) + k"
      have n64: "?n < 64" using k s by simp
      have "Fs ! i \<in> set Fs" using i by simp
      then have "\<exists>F\<in>set Fs. 8 * offset F \<le> ?n \<and> ?n < 8 * offset F + 8 * size_f F"
        using k by (intro bexI [of _ "Fs ! i"]) simp_all
      then have m: "bit (BuildMask Fs) ?n"
        using n64 by (simp add: bit_BuildMask [OF sa])
      have "bit (EncodeValue op Fs vs) ?n = bit (vs ! i) k"
      proof
        assume "bit (EncodeValue op Fs vs) ?n"
        then obtain j where j: "j < length Fs" "8 * offset (Fs ! j) \<le> ?n"
            "bit (vs ! j) (?n - 8 * offset (Fs ! j))"
          using off [OF i] by (auto simp: bit_EncodeValue)
        have "j = i"
        proof (rule ccontr)
          assume "j \<noteq> i"
          then have "disjoint_ranges (Fs ! j) (Fs ! i)"
            using disjoint_fields_nth [OF dj j(1) i] by simp
          then show False
            using win [OF j(1) j(3)] j(2) k by (auto simp: disjoint_ranges_def)
        qed
        with j show "bit (vs ! i) k" by simp
      next
        assume "bit (vs ! i) k"
        then show "bit (EncodeValue op Fs vs) ?n"
          using i len n64 by (auto simp: bit_EncodeValue)
      qed
      then show "bit w ?n = bit (vs ! i) k" using eqb [of ?n] m by simp
    qed
    then show "field_of_word (Fs ! i) w = word_of_int (vs ! i)"
      using field_of_word_eq_iff [OF f s, of w] by blast
  qed
qed

lemma EncodeValue_inj:
  assumes sa: "list_all static_asserts Fs"
    and ao: "list_all after_opcode Fs"
    and dj: "disjoint_fields Fs"
    and f1: "list_all2 fits_width Fs vs"
    and f2: "list_all2 fits_width Fs us"
    and eq: "EncodeValue op Fs vs = EncodeValue op Fs us"
  shows "vs = us"
proof (rule nth_equalityI)
  show len: "length vs = length us"
    using f1 f2 by (simp add: list_all2_lengthD [symmetric])
  let ?p = "EncodeValue op Fs vs"
  have p1: "?p AND BuildMask Fs = EncodeValue op Fs vs"
    by (rule bit_word_eqI) (use pattern_in_mask [OF sa f1] in \<open>auto simp: bit_and_iff\<close>)
  then have p2: "?p AND BuildMask Fs = EncodeValue op Fs us" using eq by simp
  fix i assume "i < length vs"
  then have i: "i < length Fs" using f1 by (simp add: list_all2_lengthD)
  have "field_of_word (Fs ! i) ?p = word_of_int (vs ! i)"
    using match_only_if(2) [OF sa f1 ao dj p1] i by blast
  moreover have "field_of_word (Fs ! i) ?p = word_of_int (us ! i)"
    using match_only_if(2) [OF sa f2 ao dj p2] i by blast
  ultimately have "(word_of_int (vs ! i) :: uint64) = word_of_int (us ! i)" by simp
  then have "uint (word_of_int (vs ! i) :: uint64) = uint (word_of_int (us ! i) :: uint64)" by simp
  moreover have "fits_width (Fs ! i) (vs ! i)" "fits_width (Fs ! i) (us ! i)" "size_f (Fs ! i) \<le> 8"
    using f1 f2 sa i by (auto simp: list_all2_nthD list_all_length static_asserts_def less_imp_le)
  ultimately show "vs ! i = us ! i"
    by (simp add: uint_word_of_int_fits)
qed

lemma BuildMask_set:
  assumes "set Fs = set Gs"
  shows "BuildMask Fs = BuildMask Gs"
proof (rule bit_word_eqI)
  fix n
  show "bit (BuildMask Fs) n = bit (BuildMask Gs) n"
    unfolding BuildMask_def Let_def bit_foldl_OR assms ..
qed

lemma EncodeValue_set:
  assumes "set (zip Fs vs) = set (zip Gs us)"
  shows "EncodeValue op Fs vs = EncodeValue op Gs us"
proof (rule bit_word_eqI)
  fix n
  show "bit (EncodeValue op Fs vs) n = bit (EncodeValue op Gs us) n"
    unfolding EncodeValue_def Let_def bit_foldl_OR_prod assms ..
qed

section \<open>Records and their leading word\<close>

lemma bit_le_word:
  "bit (le_word bs) n \<longleftrightarrow> n < 64 \<and> n div 8 < length bs \<and> bit (bs ! (n div 8)) (n mod 8)"
proof (induction bs arbitrary: n)
  case Nil
  then show ?case by simp
next
  case (Cons b bs)
  show ?case
  proof (cases "n < 8")
    case True
    then show ?thesis
      by (auto simp: bit_or_iff bit_ucast_iff bit_push_bit_iff dest: bit_imp_le_length)
  next
    case False
    then have *: "(n - 8) div 8 = n div 8 - 1" "(n - 8) mod 8 = n mod 8" "0 < n div 8" "8 \<le> n"
      by (auto simp: le_div_geq le_mod_geq)
    have "\<not> bit (ucast b :: uint64) n"
      using False by (auto simp: bit_ucast_iff dest: bit_imp_le_length)
    moreover have "bit (push_bit 8 (le_word bs)) n \<longleftrightarrow> n < 64 \<and> bit (le_word bs) (n - 8)"
      using * by (auto simp: bit_push_bit_iff)
    ultimately show ?thesis
      using * Cons.IH [of "n - 8"] by (cases "n div 8") (auto simp: bit_or_iff)
  qed
qed

lemma field_bytes_word:
  assumes "offset F + size_f F \<le> 8" "8 \<le> length r"
  shows "le_word (field_bytes F r) = field_of_word F (leading_word r)"
proof (rule bit_word_eqI)
  fix n assume "n < LENGTH(64)"
  then have n: "n < 64" by simp
  show "bit (le_word (field_bytes F r)) n = bit (field_of_word F (leading_word r)) n"
  proof (cases "n < 8 * size_f F")
    case True
    then have d: "n div 8 < size_f F" by (simp add: less_mult_imp_div_less mult.commute)
    then have "offset F + n div 8 < 8" using assms by simp
    moreover have "(8 * offset F + n) div 8 = offset F + n div 8" "(8 * offset F + n) mod 8 = n mod 8"
      by simp_all
    ultimately show ?thesis
      using True d assms n
      by (simp add: bit_le_word bit_field_of_word field_bytes_def leading_word_def)
  next
    case False
    then have "\<not> n div 8 < size_f F" by (simp add: div_less_iff_less_mult mult.commute)
    then show ?thesis
      using False by (simp add: bit_le_word bit_field_of_word field_bytes_def)
  qed
qed

lemma opcode_word:
  assumes "8 \<le> length r"
  shows "take_bit 8 (leading_word r) = ucast (opcode_of r)"
  unfolding low_byte_eq_iff using assms
  by (simp add: bit_le_word leading_word_def opcode_of_def)

lemma field_unsigned_eq_iff:
  assumes "offset F + size_f F \<le> 8" "8 \<le> length r" "fits_width F v"
  shows "field_unsigned F r = v \<longleftrightarrow> field_of_word F (leading_word r) = word_of_int v"
proof -
  have "v < 2 ^ 64"
  proof -
    have "(2 :: int) ^ (8 * size_f F) \<le> 2 ^ 64"
      using assms(1) by (intro power_increasing) simp_all
    then show ?thesis using assms(3) by (simp add: fits_width_def)
  qed
  then have "uint (word_of_int v :: uint64) = v"
    using assms(3) by (simp add: fits_width_def uint_word_of_int take_bit_int_eq_self)
  then show ?thesis
    unfolding field_unsigned_def field_bytes_word [OF assms(1,2)]
    by (metis word_of_int_uint)
qed

lemma field_unsigned_bounds:
  "0 \<le> field_unsigned F r \<and> field_unsigned F r < 2 ^ (8 * size_f F)"
proof -
  let ?w = "le_word (field_bytes F r)"
  have "take_bit (8 * size_f F) ?w = ?w"
  proof (rule bit_word_eqI)
    fix n assume "n < LENGTH(64)"
    have "n div 8 < size_f F \<Longrightarrow> n < 8 * size_f F"
      by (simp add: div_less_iff_less_mult mult.commute)
    then show "bit (take_bit (8 * size_f F) ?w) n = bit ?w n"
      by (auto simp: bit_take_bit_iff bit_le_word field_bytes_def)
  qed
  then have "uint ?w = take_bit (8 * size_f F) (uint ?w)"
    by (metis unsigned_take_bit_eq)
  then have "uint ?w < 2 ^ (8 * size_f F)"
    by (metis take_bit_int_less_exp)
  then show ?thesis by (simp add: field_unsigned_def)
qed

lemma field_value_nonneg:
  assumes "field_value F r = v" and "0 \<le> v"
  shows "field_unsigned F r = v"
  using assms field_unsigned_bounds [of F r]
  by (auto simp: field_value_def Let_def split: if_splits)

section \<open>The spec's scenario\<close>

lemma spec_scenario:
  "BuildMask [scenario_kind, scenario_rep] = 0x00FFFFFF
   \<and> EncodeValue 2 [scenario_kind, scenario_rep] [0, 0] = 0x00000002
   \<and> Test (For 2 [scenario_kind, scenario_rep] [0, 0]) [2, 0, 0, 0, 0, 0, 0, 0]
   \<and> \<not> Test (For 2 [scenario_kind, scenario_rep] [0, 0]) [2, 0, 1, 0, 0, 0, 0, 0]
   \<and> BuildMask [scenario_kind] = 0x0000FFFF
   \<and> EncodeValue 2 [scenario_kind] [0] = 0x00000002
   \<and> Test (For 2 [scenario_kind] [0]) [2, 0, 0, 0, 0, 0, 0, 0]
   \<and> Test (For 2 [scenario_kind] [0]) [2, 0, 1, 0, 0, 0, 0, 0]"
  by code_simp

section \<open>Soundness of the membership test\<close>

text \<open>
  Claim C1, as amended. Let the record have at least eight bytes, let the fields pass
  the static assertions, occupy pairwise disjoint byte ranges and start after the
  opcode byte, and let each value lie in \<open>[0, 2^(8 * size) - 1]\<close>. Then \<open>Test\<close> of
  the mask built by \<open>For\<close> holds on the record if and only if the record's opcode
  byte is the opcode constant and, for every field, the bytes of the record at the
  field's offset and width, read unsigned, equal the field's value.
\<close>

theorem Test_sound_disjoint_fields:
  assumes "8 \<le> length record"
    and "list_all static_asserts Fields"
    and "list_all after_opcode Fields"
    and "disjoint_fields Fields"
    and "list_all2 fits_width Fields Args"
  shows "Test (For op Fields Args) record \<longleftrightarrow>
    opcode_of record = op \<and>
    (\<forall>i < length Fields. field_unsigned (Fields ! i) record = Args ! i)"
proof -
  let ?w = "leading_word record"
  have fu: "\<And>i. i < length Fields \<Longrightarrow>
      (field_unsigned (Fields ! i) record = Args ! i) =
      (field_of_word (Fields ! i) ?w = word_of_int (Args ! i))"
    using assms(1,2,5)
    by (intro field_unsigned_eq_iff) (simp_all add: list_all_length static_asserts_def list_all2_nthD)
  have oc: "(opcode_of record = op) = (take_bit 8 ?w = ucast op)"
    by (simp add: opcode_word [OF assms(1)] ucast_Opcode_inj)
  have "(?w AND BuildMask Fields = EncodeValue op Fields Args) \<longleftrightarrow>
      take_bit 8 ?w = ucast op \<and>
      (\<forall>i < length Fields. field_of_word (Fields ! i) ?w = word_of_int (Args ! i))"
    using match_if [OF assms(2,5)] match_only_if [OF assms(2,5,3,4)] by blast
  then show ?thesis
    using fu oc by (simp add: Test_def For_def)
qed

theorem Test_sound_disjoint_fields_witness:
  "8 \<le> length [2 :: 8 word, 0, 0, 0, 0, 0, 0, 0]
   \<and> list_all static_asserts [scenario_kind, scenario_rep]
   \<and> list_all after_opcode [scenario_kind, scenario_rep]
   \<and> disjoint_fields [scenario_kind, scenario_rep]
   \<and> list_all2 fits_width [scenario_kind, scenario_rep] [0, 0]
   \<and> Test (For 2 [scenario_kind, scenario_rep] [0, 0]) [2, 0, 0, 0, 0, 0, 0, 0]
   \<and> \<not> Test (For 2 [scenario_kind, scenario_rep] [0, 0]) [2, 0, 1, 0, 0, 0, 0, 0]"
  using Test_sound_disjoint_fields [of "[2, 0, 0, 0, 0, 0, 0, 0]" "[scenario_kind, scenario_rep]" "[0, 0]" 2]
    Test_sound_disjoint_fields [of "[2, 0, 1, 0, 0, 0, 0, 0]" "[scenario_kind, scenario_rep]" "[0, 0]" 2]
  by (simp add: scenario_kind_def scenario_rep_def static_asserts_def after_opcode_def
      disjoint_ranges_def fits_width_def opcode_of_def field_unsigned_def field_bytes_def
      less_Suc_eq)

text \<open>
  Without the layout condition the equivalence fails. The same field listed twice with
  the values 1 and 2 compiles; the pattern holds \<open>1 | 2 = 3\<close> in the field's byte,
  so a record whose field is 3 passes \<open>Test\<close> although its field is neither 1 nor 2.
\<close>

theorem Test_sound_duplicate_field_counterexample:
  "8 \<le> length [2 :: 8 word, 3, 0, 0, 0, 0, 0, 0]
   \<and> list_all static_asserts [scenario_kind, scenario_kind]
   \<and> list_all2 fits_width [scenario_kind, scenario_kind] [1, 2]
   \<and> Test (For 2 [scenario_kind, scenario_kind] [1, 2]) [2, 3, 0, 0, 0, 0, 0, 0]
   \<and> opcode_of [2, 3, 0, 0, 0, 0, 0, 0] = 2
   \<and> field_unsigned ([scenario_kind, scenario_kind] ! 0) [2, 3, 0, 0, 0, 0, 0, 0] \<noteq> [1, 2] ! 0"
  by code_simp

section \<open>The pattern encoder\<close>

text \<open>
  Claim C2, as amended. \<open>EncodeValue\<close> does not mask: it ORs the opcode constant with
  each value converted by \<open>static_cast<uint64_t>\<close> and shifted to its offset. When
  every value lies in \<open>[0, 2^(8 * size) - 1]\<close> the result is the spec's masked
  encoding, so no bit of a value lands outside its field's bytes.
\<close>

theorem EncodeValue_masked_when_fits:
  assumes "list_all2 fits_width Fields args"
  shows "EncodeValue op Fields args = spec_EncodePattern op Fields args"
proof -
  have "\<And>F a. (F, a) \<in> set (zip Fields args) \<Longrightarrow>
      EncodeFieldValue F a = push_bit (8 * offset F) (take_bit (8 * size_f F) (word_of_int a))"
  proof -
    fix F a assume "(F, a) \<in> set (zip Fields args)"
    then have f: "fits_width F a"
      using assms by (auto simp: list_all2_iff)
    have "take_bit (8 * size_f F) (word_of_int a :: uint64) = word_of_int a"
      by (rule bit_word_eqI) (use fits_width_bit [OF f] in \<open>auto simp: bit_take_bit_iff bit_word_of_int_iff\<close>)
    then show "EncodeFieldValue F a = push_bit (8 * offset F) (take_bit (8 * size_f F) (word_of_int a))"
      by (simp add: EncodeFieldValue_def encode_for_mask_def kBitsPerByte_def mult.commute)
  qed
  then show ?thesis
    unfolding EncodeValue_def spec_EncodePattern_def Let_def EncodeBaseValue_def
    by (intro foldl_cong) auto
qed

theorem EncodeValue_masked_when_fits_witness:
  "list_all2 fits_width [scenario_kind, scenario_rep] [3, 1]
   \<and> EncodeValue 2 [scenario_kind, scenario_rep] [3, 1]
     = spec_EncodePattern 2 [scenario_kind, scenario_rep] [3, 1]"
  using EncodeValue_masked_when_fits [of "[scenario_kind, scenario_rep]" "[3, 1]" 2]
  by (simp add: scenario_kind_def scenario_rep_def fits_width_def)

text \<open>
  A signed one-byte field with the value \<open>-1\<close>: the conversion sign-extends, the
  shift keeps bits 16 to 63, and the pattern differs from the masked encoding.
\<close>

theorem EncodeValue_sign_extension_counterexample:
  "value_of_type signed_byte_field (- 1)
   \<and> EncodeValue 2 [signed_byte_field] [- 1] = 0xFFFFFFFFFFFFFF02
   \<and> spec_EncodePattern 2 [signed_byte_field] [- 1] = 0xFF02
   \<and> EncodeValue 2 [signed_byte_field] [- 1] \<noteq> spec_EncodePattern 2 [signed_byte_field] [- 1]
   \<and> bit (EncodeValue 2 [signed_byte_field] [- 1]) 16"
  by code_simp

text \<open>
  Claim C3. For fields that pass the static assertions and values within
  \<open>[0, 2^(8 * size) - 1]\<close>, the pattern of the mask built by \<open>For\<close> has no bit
  outside its selector mask: \<open>EncodeValue(values) & ~BuildMask() = 0\<close>.
\<close>

theorem pattern_within_selector_mask:
  assumes "list_all static_asserts Fields" and "list_all2 fits_width Fields Args"
  shows "value_of (For op Fields Args) AND NOT (mask_of (For op Fields Args)) = 0"
proof (rule bit_word_eqI)
  fix n
  show "bit (value_of (For op Fields Args) AND NOT (mask_of (For op Fields Args))) n = bit (0 :: uint64) n"
    using pattern_in_mask [OF assms, of op n]
    by (auto simp: For_def bit_and_iff bit_not_iff)
qed

theorem pattern_within_selector_mask_witness:
  "list_all static_asserts [scenario_kind, scenario_rep]
   \<and> list_all2 fits_width [scenario_kind, scenario_rep] [3, 1]
   \<and> value_of (For 2 [scenario_kind, scenario_rep] [3, 1])
       AND NOT (mask_of (For 2 [scenario_kind, scenario_rep] [3, 1])) = 0"
  using pattern_within_selector_mask [of "[scenario_kind, scenario_rep]" "[3, 1]" 2]
  by (simp add: scenario_kind_def scenario_rep_def static_asserts_def fits_width_def)

section \<open>The selector mask\<close>

text \<open>
  Claim C4. For fields with \<open>size < 8\<close> and \<open>offset + size \<le> 8\<close>, \<open>BuildMask\<close> is
  the OR of \<open>0xFF\<close> and, for each field, a run of \<open>8 * size\<close> one-bits shifted left
  by \<open>8 * offset\<close> bits; its low byte is \<open>0xFF\<close>. (It is a function of the field
  list alone, so it is the same on every call.)
\<close>

theorem BuildMask_structure:
  assumes "list_all static_asserts Fields"
  shows "BuildMask Fields = spec_BuildSelectorMask Fields \<and> BuildMask Fields AND 0xFF = 0xFF"
proof
  show "BuildMask Fields = spec_BuildSelectorMask Fields"
  proof (rule bit_word_eqI)
    fix n assume "n < LENGTH(64)"
    then show "bit (BuildMask Fields) n = bit (spec_BuildSelectorMask Fields) n"
      unfolding spec_BuildSelectorMask_def bit_foldr_OR bit_0xFF bit_BuildMask [OF assms]
      by (auto simp: bit_push_bit_iff bit_mask_iff)
  qed
  show "BuildMask Fields AND 0xFF = 0xFF"
  proof (rule bit_word_eqI)
    fix n assume "n < LENGTH(64)"
    then have "n < 8 \<Longrightarrow> bit (BuildMask Fields) n"
      by (simp add: bit_BuildMask [OF assms])
    then show "bit (BuildMask Fields AND 0xFF) n = bit (0xFF :: uint64) n"
      unfolding bit_and_iff bit_0xFF by blast
  qed
qed

theorem BuildMask_structure_witness:
  "list_all static_asserts [scenario_kind, scenario_rep]
   \<and> BuildMask [scenario_kind, scenario_rep] = spec_BuildSelectorMask [scenario_kind, scenario_rep]
   \<and> BuildMask [scenario_kind, scenario_rep] AND 0xFF = 0xFF"
proof -
  have h: "list_all static_asserts [scenario_kind, scenario_rep]"
    by (simp add: scenario_kind_def scenario_rep_def static_asserts_def)
  from h BuildMask_structure [OF h] show ?thesis by blast
qed

text \<open>
  Claim C5. Two builders that declare the same fields in different orders, given the
  arguments in the matching orders (the field-value pairs are the same up to
  permutation), have the same mask and the same pattern.
\<close>

theorem order_independence:
  assumes "length args = length Fields" and "length args' = length Fields'"
    and "mset (zip Fields args) = mset (zip Fields' args')"
  shows "BuildMask Fields = BuildMask Fields' \<and>
    EncodeValue op Fields args = EncodeValue op Fields' args'"
proof -
  have z: "set (zip Fields args) = set (zip Fields' args')"
    using assms(3) by (rule mset_eq_setD)
  have "map fst (zip Fields args) = Fields" "map fst (zip Fields' args') = Fields'"
    using assms(1,2) by simp_all
  then have "set Fields = fst ` set (zip Fields args)" "set Fields' = fst ` set (zip Fields' args')"
    by (metis set_map)+
  then have "set Fields = set Fields'" using z by simp
  then show ?thesis using z BuildMask_set EncodeValue_set by blast
qed

theorem order_independence_witness:
  "length [0, 1 :: int] = length [scenario_kind, scenario_rep]
   \<and> length [1, 0 :: int] = length [scenario_rep, scenario_kind]
   \<and> mset (zip [scenario_kind, scenario_rep] [0, 1 :: int])
     = mset (zip [scenario_rep, scenario_kind] [1, 0])
   \<and> BuildMask [scenario_kind, scenario_rep] = BuildMask [scenario_rep, scenario_kind]
   \<and> EncodeValue 2 [scenario_kind, scenario_rep] [0, 1]
     = EncodeValue 2 [scenario_rep, scenario_kind] [1, 0]"
proof -
  have m: "mset (zip [scenario_kind, scenario_rep] [0, 1 :: int])
     = mset (zip [scenario_rep, scenario_kind] [1, 0])"
    by (simp add: add_mset_commute)
  show ?thesis
    using m order_independence [OF _ _ m, of 2] by simp
qed

section \<open>Width correctness\<close>

text \<open>
  Claim C6. For a field of byte width \<open>w\<close> with \<open>1 \<le> w < 8\<close> at byte offset \<open>o\<close>
  with \<open>o + w \<le> 8\<close>, and a value \<open>v\<close> in \<open>[0, 2^(8 * w) - 1]\<close>: encoding \<open>v\<close> with
  \<open>EncodeFieldValue\<close>, shifting the result right by \<open>8 * o\<close> bits and masking it to
  \<open>8 * w\<close> bits gives back \<open>v\<close>.
\<close>

theorem field_round_trip:
  assumes "1 \<le> size_f F" and "size_f F < 8" and "offset F + size_f F \<le> 8"
    and "0 \<le> v" and "v \<le> 2 ^ (8 * size_f F) - 1"
  shows "uint (drop_bit (offset F * kBitsPerByte) (EncodeFieldValue F v) AND mask (8 * size_f F)) = v"
proof -
  have f: "fits_width F v" using assms(4,5) by (simp add: fits_width_def)
  have "drop_bit (offset F * kBitsPerByte) (EncodeFieldValue F v) AND mask (8 * size_f F)
      = field_of_word F (EncodeFieldValue F v)"
    by (simp add: field_of_word_def kBitsPerByte_def take_bit_eq_mask mult.commute)
  also have "\<dots> = word_of_int v"
  proof -
    have "\<forall>k < 8 * size_f F. bit (EncodeFieldValue F v) (8 * offset F + k) = bit v k"
      using assms(3) by (simp add: bit_EncodeFieldValue)
    then show ?thesis using field_of_word_eq_iff [OF f assms(3)] by blast
  qed
  finally show ?thesis
    using uint_word_of_int_fits [OF f] assms(2) by simp
qed

theorem field_round_trip_witness:
  "1 \<le> size_f \<lparr>offset = 6, size_f = 2, is_signed = False\<rparr>
   \<and> size_f \<lparr>offset = 6, size_f = 2, is_signed = False\<rparr> < 8
   \<and> offset \<lparr>offset = 6, size_f = 2, is_signed = False\<rparr>
       + size_f \<lparr>offset = 6, size_f = 2, is_signed = False\<rparr> \<le> 8
   \<and> (65535 :: int) \<le> 2 ^ (8 * size_f \<lparr>offset = 6, size_f = 2, is_signed = False\<rparr>) - 1
   \<and> uint (drop_bit (offset \<lparr>offset = 6, size_f = 2, is_signed = False\<rparr> * kBitsPerByte)
      (EncodeFieldValue \<lparr>offset = 6, size_f = 2, is_signed = False\<rparr> 65535)
      AND mask (8 * size_f \<lparr>offset = 6, size_f = 2, is_signed = False\<rparr>)) = 65535"
  using field_round_trip [of "\<lparr>offset = 6, size_f = 2, is_signed = False\<rparr>" 65535]
  by simp

section \<open>Narrowing masks\<close>

text \<open>
  Claim C7, as amended. Let \<open>S\<close> be fields that pass the static assertions, and let a
  record of at least eight bytes have the opcode \<open>op\<close> and hold in each field of \<open>S\<close>
  a value that is not negative (so within \<open>[0, 2^(8 * size) - 1]\<close>). Then the mask
  built over \<open>S\<close> with these values tests true on the record. Nothing is assumed of the
  record's other bytes, so the fields outside \<open>S\<close> may hold anything.
\<close>

theorem narrowing_mask_matches:
  assumes "8 \<le> length record"
    and "list_all static_asserts S"
    and "list_all2 fits_width S vs"
    and "opcode_of record = op"
    and "\<forall>i < length S. field_value (S ! i) record = vs ! i"
  shows "Test (For op S vs) record"
proof -
  let ?w = "leading_word record"
  have "\<forall>i < length S. field_of_word (S ! i) ?w = word_of_int (vs ! i)"
  proof (intro allI impI)
    fix i assume i: "i < length S"
    have f: "fits_width (S ! i) (vs ! i)" using assms(3) i by (simp add: list_all2_nthD)
    have s: "offset (S ! i) + size_f (S ! i) \<le> 8"
      using assms(2) i by (simp add: list_all_length static_asserts_def)
    have "field_value (S ! i) record = vs ! i" using assms(5) i by blast
    then have "field_unsigned (S ! i) record = vs ! i"
      using f by (intro field_value_nonneg) (simp_all add: fits_width_def)
    then show "field_of_word (S ! i) ?w = word_of_int (vs ! i)"
      using field_unsigned_eq_iff [OF s assms(1) f] by blast
  qed
  moreover have "take_bit 8 ?w = ucast op"
    using opcode_word [OF assms(1)] assms(4) by simp
  ultimately have "?w AND BuildMask S = EncodeValue op S vs"
    using match_if [OF assms(2,3)] by blast
  then show ?thesis by (simp add: Test_def For_def)
qed

theorem narrowing_mask_matches_witness:
  "8 \<le> length [2 :: 8 word, 0, 1, 0, 0, 0, 0, 0]
   \<and> list_all static_asserts [scenario_kind]
   \<and> list_all2 fits_width [scenario_kind] [0]
   \<and> opcode_of [2, 0, 1, 0, 0, 0, 0, 0] = 2
   \<and> field_value scenario_kind [2, 0, 1, 0, 0, 0, 0, 0] = 0
   \<and> Test (For 2 [scenario_kind] [0]) [2, 0, 1, 0, 0, 0, 0, 0]
   \<and> Test (For 2 [scenario_kind] [0]) [2, 0, 0, 0, 0, 0, 0, 0]"
  using narrowing_mask_matches [of "[2, 0, 1, 0, 0, 0, 0, 0]" "[scenario_kind]" "[0]" 2]
    narrowing_mask_matches [of "[2, 0, 0, 0, 0, 0, 0, 0]" "[scenario_kind]" "[0]" 2]
  by (simp add: scenario_kind_def static_asserts_def fits_width_def opcode_of_def
      field_value_def field_unsigned_def field_bytes_def)

text \<open>
  A signed field that holds a negative value: the record's byte is \<open>0xFF\<close>, the
  field's value is \<open>-1\<close>, and the mask built with \<open>-1\<close> does not test true on the
  record, because the sign-extended pattern has bits outside the selector mask.
\<close>

theorem narrowing_negative_value_counterexample:
  "8 \<le> length [2 :: 8 word, 255, 0, 0, 0, 0, 0, 0]
   \<and> list_all static_asserts [signed_byte_field]
   \<and> opcode_of [2, 255, 0, 0, 0, 0, 0, 0] = 2
   \<and> field_value signed_byte_field [2, 255, 0, 0, 0, 0, 0, 0] = - 1
   \<and> value_of_type signed_byte_field (- 1)
   \<and> \<not> Test (For 2 [signed_byte_field] [- 1]) [2, 255, 0, 0, 0, 0, 0, 0]"
  by code_simp

section \<open>The empty field list\<close>

text \<open>
  Claim C9. With no field descriptors \<open>BuildMask\<close> is \<open>0xFF\<close> and \<open>EncodeValue\<close> is
  the opcode constant, so \<open>Test\<close> of the resulting mask compares the opcode byte of the
  record and nothing else.
\<close>

theorem empty_field_list:
  "BuildMask [] = 0xFF \<and> EncodeValue op [] [] = ucast op \<and>
   (8 \<le> length record \<longrightarrow> Test (For op [] []) record = (opcode_of record = op))"
proof (intro conjI impI)
  show "BuildMask [] = 0xFF" by (simp add: BuildMask_def BuildBaseMask_def)
  show "EncodeValue op [] [] = ucast op" by (simp add: EncodeValue_def EncodeBaseValue_def)
  assume l: "8 \<le> length record"
  have "leading_word record AND 0xFF = take_bit 8 (leading_word record)"
    by (simp add: take_bit_eq_mask mask_eq_exp_minus_1)
  then show "Test (For op [] []) record = (opcode_of record = op)"
    by (simp add: Test_def For_def BuildMask_def BuildBaseMask_def EncodeValue_def
        EncodeBaseValue_def opcode_word [OF l] ucast_Opcode_inj)
qed

theorem empty_field_list_witness:
  "8 \<le> length [2 :: 8 word, 9, 9, 9, 9, 9, 9, 9]
   \<and> Test (For 2 [] []) [2, 9, 9, 9, 9, 9, 9, 9]
   \<and> \<not> Test (For 2 [] []) [3, 9, 9, 9, 9, 9, 9, 9]"
  using empty_field_list [of 2 "[2, 9, 9, 9, 9, 9, 9, 9]"]
    empty_field_list [of 2 "[3, 9, 9, 9, 9, 9, 9, 9]"]
  by (simp add: opcode_of_def)

section \<open>Mutual exclusivity\<close>

text \<open>
  Claim C10, as amended. Let the fields pass the static assertions, occupy pairwise
  disjoint byte ranges and start after the opcode byte. Two value tuples within the
  fields' ranges \<open>[0, 2^(8 * size) - 1]\<close> that differ in some position give different
  patterns, and no record satisfies the \<open>Test\<close> of both masks.
\<close>

theorem distinct_values_exclusive:
  assumes "list_all static_asserts Fields"
    and "list_all after_opcode Fields"
    and "disjoint_fields Fields"
    and "list_all2 fits_width Fields Args"
    and "list_all2 fits_width Fields Args'"
    and "Args \<noteq> Args'"
  shows "EncodeValue op Fields Args \<noteq> EncodeValue op Fields Args' \<and>
    \<not> (Test (For op Fields Args) record \<and> Test (For op Fields Args') record)"
proof -
  have "EncodeValue op Fields Args \<noteq> EncodeValue op Fields Args'"
    using EncodeValue_inj [OF assms(1-5)] assms(6) by blast
  then show ?thesis by (auto simp: Test_def For_def)
qed

theorem distinct_values_exclusive_witness:
  "list_all static_asserts [scenario_kind, scenario_rep]
   \<and> list_all after_opcode [scenario_kind, scenario_rep]
   \<and> disjoint_fields [scenario_kind, scenario_rep]
   \<and> list_all2 fits_width [scenario_kind, scenario_rep] [0, 0]
   \<and> list_all2 fits_width [scenario_kind, scenario_rep] [0, 1]
   \<and> [0, 0 :: int] \<noteq> [0, 1]
   \<and> EncodeValue 2 [scenario_kind, scenario_rep] [0, 0]
     \<noteq> EncodeValue 2 [scenario_kind, scenario_rep] [0, 1]
   \<and> \<not> (Test (For 2 [scenario_kind, scenario_rep] [0, 0]) [2, 0, 1, 0, 0, 0, 0, 0]
     \<and> Test (For 2 [scenario_kind, scenario_rep] [0, 1]) [2, 0, 1, 0, 0, 0, 0, 0])"
  using distinct_values_exclusive [of "[scenario_kind, scenario_rep]" "[0, 0]" "[0, 1]" 2
      "[2, 0, 1, 0, 0, 0, 0, 0]"]
  by (simp add: scenario_kind_def scenario_rep_def static_asserts_def after_opcode_def
      disjoint_ranges_def fits_width_def)

text \<open>
  A single one-byte field at offset 0 passes the static assertions and is disjoint
  from every other field, but shares its byte with the opcode: with opcode 3 the
  values 1 and 2 give the same pattern \<open>3 | 1 = 3 | 2 = 3\<close>, and one record
  satisfies both masks.
\<close>

theorem opcode_byte_field_counterexample:
  "list_all static_asserts [\<lparr>offset = 0, size_f = 1, is_signed = False\<rparr>]
   \<and> disjoint_fields [\<lparr>offset = 0, size_f = 1, is_signed = False\<rparr>]
   \<and> list_all2 fits_width [\<lparr>offset = 0, size_f = 1, is_signed = False\<rparr>] [1]
   \<and> list_all2 fits_width [\<lparr>offset = 0, size_f = 1, is_signed = False\<rparr>] [2]
   \<and> [1 :: int] \<noteq> [2]
   \<and> EncodeValue 3 [\<lparr>offset = 0, size_f = 1, is_signed = False\<rparr>] [1]
     = EncodeValue 3 [\<lparr>offset = 0, size_f = 1, is_signed = False\<rparr>] [2]
   \<and> Test (For 3 [\<lparr>offset = 0, size_f = 1, is_signed = False\<rparr>] [1]) [3, 0, 0, 0, 0, 0, 0, 0]
   \<and> Test (For 3 [\<lparr>offset = 0, size_f = 1, is_signed = False\<rparr>] [2]) [3, 0, 0, 0, 0, 0, 0, 0]"
  by code_simp

end
